theory Spec2Isabelle
  imports Main "HOL-Library.AList"
begin

section \<open>JSON values and their text\<close>

text \<open>
  The cache stores \<^verbatim>\<open>JSON.stringify(value)\<close> and reads it back with
  \<^verbatim>\<open>kv.get(fullKey, "json")\<close>. Values are JSON-compatible structures; the
  JavaScript \<^verbatim>\<open>null\<close> that \<^verbatim>\<open>get\<close> returns for a missing key is the same
  value as a stored JSON null, so both are \<open>JNull\<close> here.
\<close>

datatype json =
    JNull
  | JBool bool
  | JNum int
  | JStr string
  | JArr "json list"
  | JObj "(string \<times> json) list"

text \<open>
  The serialised text of a JSON value is kept as the value it denotes: on JSON-compatible
  values parsing the text that \<^verbatim>\<open>JSON.stringify\<close> wrote gives the value back.
\<close>

datatype json_text = Serialized json

definition JSON_stringify :: "json \<Rightarrow> json_text" where
  "JSON_stringify v = Serialized v"

fun JSON_parse :: "json_text \<Rightarrow> json" where
  "JSON_parse (Serialized v) = v"

section \<open>The key-value substrate\<close>

text \<open>
  Modelled from the spec: the \<^verbatim>\<open>KVNamespace\<close> binding (the platform's key-value
  store) is not part of the repository. The spec's CacheEntry has a key, a serialised
  value and an absolute \<^verbatim>\<open>expires_at\<close> (none = no expiry); expiry is lazy, checked
  at read time, and a read at or after \<^verbatim>\<open>expires_at\<close> behaves as a miss. Times are
  whole seconds. The substrate applies no lower bound to a TTL, and its outages are not
  part of this model.
\<close>

record kv_entry =
  text_of :: json_text
  expires_at :: "nat option"
  entry_metadata :: "json option"

type_synonym KVNamespace = "string \<rightharpoonup> kv_entry"

record KVNamespacePutOptions =
  expirationTtl :: "nat option"
  put_metadata :: "json option"

definition expired :: "kv_entry \<Rightarrow> nat \<Rightarrow> bool" where
  "expired e now = (case expires_at e of None \<Rightarrow> False | Some x \<Rightarrow> x \<le> now)"

definition kv_get_json :: "KVNamespace \<Rightarrow> nat \<Rightarrow> string \<Rightarrow> json" where
  "kv_get_json store now k =
     (case store k of
        None \<Rightarrow> JNull
      | Some e \<Rightarrow> if expired e now then JNull else JSON_parse (text_of e))"

definition kv_put :: "KVNamespace \<Rightarrow> nat \<Rightarrow> string \<Rightarrow> json_text \<Rightarrow> KVNamespacePutOptions \<Rightarrow> KVNamespace" where
  "kv_put store now k txt opts =
     store(k \<mapsto> \<lparr>text_of = txt,
                  expires_at = map_option (\<lambda>t. now + t) (expirationTtl opts),
                  entry_metadata = put_metadata opts\<rparr>)"

definition kv_delete :: "KVNamespace \<Rightarrow> string \<Rightarrow> KVNamespace" where
  "kv_delete store k = store(k := None)"

section \<open>KVCache\<close>

record CacheOptions =
  ttl :: "nat option"
  metadata :: "json option"

text \<open>The default \<^verbatim>\<open>options = {}\<close>.\<close>

definition no_options :: CacheOptions where
  "no_options = \<lparr>ttl = None, metadata = None\<rparr>"

record KVCache =
  kv :: KVNamespace
  namespace :: string

definition getKey :: "KVCache \<Rightarrow> string \<Rightarrow> string" where
  "getKey c key = namespace c @ '':'' @ key"

text \<open>\<^verbatim>\<open>get\<close>: the time is the substrate's clock when the read reaches it.\<close>

definition KVCache_get :: "KVCache \<Rightarrow> nat \<Rightarrow> string \<Rightarrow> json" where
  "KVCache_get c now key = kv_get_json (kv c) now (getKey c key)"

text \<open>
  \<^verbatim>\<open>if (options.ttl)\<close> is a truthiness test: an omitted ttl and a ttl of 0 both leave
  \<^verbatim>\<open>expirationTtl\<close> unset. A metadata object, when given, is always truthy.
\<close>

definition truthy_ttl :: "nat option \<Rightarrow> bool" where
  "truthy_ttl t = (case t of None \<Rightarrow> False | Some n \<Rightarrow> n \<noteq> 0)"

definition KVCache_set :: "KVCache \<Rightarrow> nat \<Rightarrow> string \<Rightarrow> json \<Rightarrow> CacheOptions \<Rightarrow> KVCache" where
  "KVCache_set c now key v options =
     (let fullKey = getKey c key;
          kvOptions0 = \<lparr>expirationTtl = None, put_metadata = None\<rparr>;
          kvOptions1 = (if truthy_ttl (ttl options)
                        then kvOptions0\<lparr>expirationTtl := ttl options\<rparr> else kvOptions0);
          kvOptions = (if metadata options \<noteq> None
                       then kvOptions1\<lparr>put_metadata := metadata options\<rparr> else kvOptions1)
      in c\<lparr>kv := kv_put (kv c) now fullKey (JSON_stringify v) kvOptions\<rparr>)"

definition KVCache_delete :: "KVCache \<Rightarrow> string \<Rightarrow> KVCache" where
  "KVCache_delete c key = c\<lparr>kv := kv_delete (kv c) (getKey c key)\<rparr>"

definition KVCache_has :: "KVCache \<Rightarrow> nat \<Rightarrow> string \<Rightarrow> bool" where
  "KVCache_has c now key = (KVCache_get c now key \<noteq> JNull)"

text \<open>
  \<^verbatim>\<open>getOrSet\<close>. The compute function is an arbitrary asynchronous closure: it is a
  transformer of its own world \<open>'w\<close> (whatever it reads and changes outside the cache)
  that settles with a value or rejects with an error of any type \<open>'e\<close>. Each invocation
  is one application to the world, so the world returned tells how often it ran. The
  lookup reaches the store at \<open>t_get\<close>, the write (if any) at \<open>t_put\<close>.
\<close>

definition KVCache_getOrSet ::
  "KVCache \<Rightarrow> nat \<Rightarrow> nat \<Rightarrow> string \<Rightarrow> ('w \<Rightarrow> ('e + json) \<times> 'w) \<Rightarrow> CacheOptions \<Rightarrow> 'w
     \<Rightarrow> ('e + json) \<times> KVCache \<times> 'w" where
  "KVCache_getOrSet c t_get t_put key fn options w =
     (let cached = KVCache_get c t_get key in
      if cached \<noteq> JNull then (Inr cached, c, w)
      else (case fn w of
              (Inl err, w') \<Rightarrow> (Inl err, c, w')
            | (Inr v, w') \<Rightarrow> (Inr v, KVCache_set c t_put key v options, w')))"

text \<open>The TTL classes, in seconds.\<close>

definition CACHE_TTL_VARIANT :: nat where "CACHE_TTL_VARIANT = 24 * 60 * 60"
definition CACHE_TTL_GENE :: nat where "CACHE_TTL_GENE = 30 * 24 * 60 * 60"
definition CACHE_TTL_DRUG :: nat where "CACHE_TTL_DRUG = 30 * 24 * 60 * 60"
definition CACHE_TTL_TRIAL :: nat where "CACHE_TTL_TRIAL = 7 * 24 * 60 * 60"
definition CACHE_TTL_DIAGNOSIS :: nat where "CACHE_TTL_DIAGNOSIS = 60 * 60"

section \<open>The durable variant registry\<close>

record VariantEntry =
  hgvs :: string
  gene :: string
  interpretation_payload :: json
  sources :: "string list"
  created_at :: nat
  updated_at :: nat
  access_count :: nat

text \<open>
  Modelled from the spec: the persistent storage substrate behind
  \<^verbatim>\<open>state.storage\<close> is not part of the repository. The spec gives it
  \<^verbatim>\<open>list()\<close>, \<^verbatim>\<open>put(key, value)\<close> and \<^verbatim>\<open>delete(key)\<close>, durable
  across restarts, and a StorageError when the substrate fails. The flag \<open>down\<close> says
  whether the substrate is failing at the moment; a failing call changes nothing that is
  persisted. \<open>list_calls\<close> counts the calls of \<^verbatim>\<open>list()\<close>, so that hydration
  can be observed. The listing keeps the order of the association list; nothing below
  depends on that order.
\<close>

datatype error = StorageError

record DurableObjectStorage =
  persisted :: "(string \<times> VariantEntry) list"
  down :: bool
  list_calls :: nat

definition storage_list ::
  "DurableObjectStorage \<Rightarrow> (error + (string \<times> VariantEntry) list) \<times> DurableObjectStorage" where
  "storage_list st =
     (if down st then Inl StorageError else Inr (persisted st),
      st\<lparr>list_calls := Suc (list_calls st)\<rparr>)"

definition storage_put ::
  "DurableObjectStorage \<Rightarrow> string \<Rightarrow> VariantEntry \<Rightarrow> error + DurableObjectStorage" where
  "storage_put st k v =
     (if down st then Inl StorageError
      else Inr (st\<lparr>persisted := AList.update k v (persisted st)\<rparr>))"

definition storage_delete :: "DurableObjectStorage \<Rightarrow> string \<Rightarrow> error + DurableObjectStorage" where
  "storage_delete st k =
     (if down st then Inl StorageError
      else Inr (st\<lparr>persisted := AList.delete k (persisted st)\<rparr>))"

text \<open>
  The shard object: its storage and the in-memory index, a JavaScript \<^verbatim>\<open>Map\<close>
  (insertion-ordered, one entry per key), here an association list.
\<close>

record VariantRegistry =
  storage :: DurableObjectStorage
  variants :: "(string \<times> VariantEntry) list"

definition new_VariantRegistry :: "DurableObjectStorage \<Rightarrow> VariantRegistry" where
  "new_VariantRegistry st = \<lparr>storage = st, variants = []\<rparr>"

text \<open>
  Responses. The timestamps of a statistics summary are the entry's instants (the source
  prints them with \<^verbatim>\<open>toISOString\<close>).
\<close>

record summary =
  s_hgvs :: string
  s_gene :: string
  s_access_count :: nat
  s_created_at :: nat
  s_updated_at :: nat

datatype body =
    VariantJson VariantEntry
  | ErrorJson string
  | StoredJson VariantEntry
  | SuccessJson
  | StatsJson nat "summary list"
  | PlainText string

datatype response = Response (status: nat) (body: body)

text \<open>\<^verbatim>\<open>a || b\<close> on numbers: the left operand unless it is falsy (0).\<close>

definition js_or :: "nat \<Rightarrow> nat \<Rightarrow> nat" where
  "js_or a b = (if a \<noteq> 0 then a else b)"

text \<open>
  Every operation returns its outcome (the response, or the error it throws) together
  with the shard as the call leaves it: an exception does not undo what was done before
  it. \<open>now\<close> is the reading of \<^verbatim>\<open>Date.now()\<close>, in milliseconds; the two
  readings in \<open>storeVariant\<close> have no suspension point between them.
\<close>

definition getVariant :: "VariantRegistry \<Rightarrow> nat \<Rightarrow> string \<Rightarrow> (error + response) \<times> VariantRegistry" where
  "getVariant reg now h =
     (case map_of (variants reg) h of
        None \<Rightarrow> (Inr (Response 404 (ErrorJson ''Variant not found'')), reg)
      | Some variant \<Rightarrow>
          (let variant' = variant\<lparr>access_count := access_count variant + 1, updated_at := now\<rparr>;
               reg' = reg\<lparr>variants := AList.update h variant' (variants reg)\<rparr>
           in case storage_put (storage reg') h variant' of
                Inl err \<Rightarrow> (Inl err, reg')
              | Inr st \<Rightarrow> (Inr (Response 200 (VariantJson variant')), reg'\<lparr>storage := st\<rparr>)))"

text \<open>The object literal \<^verbatim>\<open>entry\<close> of \<open>storeVariant\<close>.\<close>

definition new_entry :: "VariantEntry option \<Rightarrow> nat \<Rightarrow> VariantEntry \<Rightarrow> VariantEntry" where
  "new_entry existing now data =
     data\<lparr>created_at := (case existing of None \<Rightarrow> now | Some e \<Rightarrow> js_or (created_at e) now),
          updated_at := now,
          access_count := (case existing of None \<Rightarrow> 0 | Some e \<Rightarrow> js_or (access_count e) 0)\<rparr>"

definition storeVariant :: "VariantRegistry \<Rightarrow> nat \<Rightarrow> VariantEntry \<Rightarrow> (error + response) \<times> VariantRegistry" where
  "storeVariant reg now data =
     (let existing = map_of (variants reg) (hgvs data);
          entry = new_entry existing now data;
          reg' = reg\<lparr>variants := AList.update (hgvs data) entry (variants reg)\<rparr>
      in case storage_put (storage reg') (hgvs data) entry of
           Inl err \<Rightarrow> (Inl err, reg')
         | Inr st \<Rightarrow> (Inr (Response 200 (StoredJson entry)), reg'\<lparr>storage := st\<rparr>))"

definition deleteVariant :: "VariantRegistry \<Rightarrow> string \<Rightarrow> (error + response) \<times> VariantRegistry" where
  "deleteVariant reg h =
     (let reg' = reg\<lparr>variants := AList.delete h (variants reg)\<rparr>
      in case storage_delete (storage reg') h of
           Inl err \<Rightarrow> (Inl err, reg')
         | Inr st \<Rightarrow> (Inr (Response 200 SuccessJson), reg'\<lparr>storage := st\<rparr>))"

definition getStats :: "VariantRegistry \<Rightarrow> (error + response) \<times> VariantRegistry" where
  "getStats reg =
     (Inr (Response 200
        (StatsJson (length (variants reg))
           (map (\<lambda>(k, v). \<lparr>s_hgvs = hgvs v, s_gene = gene v, s_access_count = access_count v,
                            s_created_at = created_at v, s_updated_at = updated_at v\<rparr>)
                (variants reg)))),
      reg)"

text \<open>
  A request as \<open>fetch\<close> routes it by method and path: \<^verbatim>\<open>GET /variant/:hgvs\<close>,
  \<^verbatim>\<open>POST /variant\<close> with its body, \<^verbatim>\<open>DELETE /variant/:hgvs\<close>,
  \<^verbatim>\<open>GET /stats\<close>, and anything else.
\<close>

datatype request =
    GET_variant string
  | POST_variant VariantEntry
  | DELETE_variant string
  | GET_stats
  | Unrouted

fun route :: "VariantRegistry \<Rightarrow> nat \<Rightarrow> request \<Rightarrow> (error + response) \<times> VariantRegistry" where
  "route reg now (GET_variant h) = getVariant reg now h"
| "route reg now (POST_variant data) = storeVariant reg now data"
| "route reg now (DELETE_variant h) = deleteVariant reg h"
| "route reg now GET_stats = getStats reg"
| "route reg now Unrouted = (Inr (Response 404 (PlainText ''Not found'')), reg)"

text \<open>
  \<open>fetch\<close>: the guard \<^verbatim>\<open>this.variants.size === 0\<close>, the listing of the storage into
  the index, then the dispatch.
\<close>

definition fetch :: "VariantRegistry \<Rightarrow> nat \<Rightarrow> request \<Rightarrow> (error + response) \<times> VariantRegistry" where
  "fetch reg now r =
     (if variants reg = [] then
        (case storage_list (storage reg) of
           (Inl err, st) \<Rightarrow> (Inl err, reg\<lparr>storage := st\<rparr>)
         | (Inr stored, st) \<Rightarrow>
             route (reg\<lparr>storage := st,
                        variants := fold (\<lambda>(key, v). AList.update key v) stored (variants reg)\<rparr>)
                   now r)
      else route reg now r)"

text \<open>
  A shard's life is a sequence of requests. Before each one the environment decides the
  time and whether the storage substrate is failing. \<open>serve\<close> gives the outcome of
  every request and the shard at the end.
\<close>

type_synonym event = "nat \<times> bool \<times> request"

fun serve :: "VariantRegistry \<Rightarrow> event list \<Rightarrow> (error + response) list \<times> VariantRegistry" where
  "serve reg [] = ([], reg)"
| "serve reg ((now, dn, r) # rest) =
     (case fetch (reg\<lparr>storage := (storage reg)\<lparr>down := dn\<rparr>\<rparr>) now r of
        (out, reg') \<Rightarrow>
          (case serve reg' rest of (outs, reg'') \<Rightarrow> (out # outs, reg'')))"

text \<open>
  What a sequence of requests does to one variant: whether a request reads it, whether
  it reads or stores it, how many reads there are, and the time of the last read or store
  (\<open>t0\<close> when there is none).
\<close>

fun is_read :: "string \<Rightarrow> request \<Rightarrow> bool" where
  "is_read h (GET_variant k) = (k = h)"
| "is_read h r = False"

fun touches :: "string \<Rightarrow> request \<Rightarrow> bool" where
  "touches h (GET_variant k) = (k = h)"
| "touches h (POST_variant data) = (hgvs data = h)"
| "touches h r = False"

fun reads_of :: "string \<Rightarrow> event list \<Rightarrow> nat" where
  "reads_of h [] = 0"
| "reads_of h ((now, dn, r) # rest) = (if is_read h r then 1 else 0) + reads_of h rest"

fun last_touch :: "string \<Rightarrow> nat \<Rightarrow> event list \<Rightarrow> nat" where
  "last_touch h t0 [] = t0"
| "last_touch h t0 ((now, dn, r) # rest) = last_touch h (if touches h r then now else t0) rest"




text \<open>\<open>n\<close> reads of one variant at the given times, the storage working.\<close>

definition reads :: "string \<Rightarrow> nat list \<Rightarrow> event list" where
  "reads h ts = map (\<lambda>now. (now, False, GET_variant h)) ts"

text \<open>The response of the \<open>i\<close>-th read (counting from 0) of an entry that started as \<open>e\<close>.\<close>

definition read_reply :: "VariantEntry \<Rightarrow> nat \<times> nat \<Rightarrow> error + response" where
  "read_reply e = (\<lambda>(i, now).
     Inr (Response 200 (VariantJson (e\<lparr>access_count := access_count e + Suc i, updated_at := now\<rparr>))))"

text \<open>A record and shards to evaluate the operations on.\<close>

definition TP53 :: VariantEntry where
  "TP53 = \<lparr>hgvs = ''TP53:p.R248Q'', gene = ''TP53'', interpretation_payload = JObj [],
           sources = [''X''], created_at = 0, updated_at = 0, access_count = 0\<rparr>"

definition empty_storage :: DurableObjectStorage where
  "empty_storage = \<lparr>persisted = [], down = False, list_calls = 0\<rparr>"

definition fresh_shard :: VariantRegistry where
  "fresh_shard = new_VariantRegistry empty_storage"

text \<open>
  The shard after \<open>TP53\<close> was stored at time 1000, and the same shard while its
  storage is failing.
\<close>

definition TP53_stored :: VariantEntry where
  "TP53_stored = TP53\<lparr>created_at := 1000, updated_at := 1000\<rparr>"

definition warm_shard :: VariantRegistry where
  "warm_shard =
     \<lparr>storage = \<lparr>persisted = [(''TP53:p.R248Q'', TP53_stored)], down = False, list_calls = 1\<rparr>,
      variants = [(''TP53:p.R248Q'', TP53_stored)]\<rparr>"


section \<open>The variant batch of the diagnosis handler\<close>




text \<open>
  Step 2 of \<^verbatim>\<open>POST /api/diagnosis\<close>, taken on its own: \<^verbatim>\<open>variants.map\<close> calls
  one \<open>getOrSet\<close> per variant under the key \<^verbatim>\<open>variant:<hgvs>\<close> with the VARIANT
  TTL; \<open>interpretVariant hgvs\<close> is the closure that asks the upstream source. The
  callbacks run up to their first \<^verbatim>\<open>await\<close> inside \<^verbatim>\<open>map\<close>, so every lookup
  is issued before any sub-query writes: each sub-query is \<open>getOrSet\<close> on the cache
  \<open>c0\<close> as the batch found it, and its write, if it makes one, lands in the shared store
  \<open>c\<close>. \<open>interpret_each\<close> gives what the sub-queries settle with when all of them are
  left to run, the closures called in input order, and the store and the world they leave.
\<close>

definition variant_options :: CacheOptions where
  "variant_options = \<lparr>ttl = Some CACHE_TTL_VARIANT, metadata = None\<rparr>"

fun interpret_each ::
  "KVCache \<Rightarrow> nat \<Rightarrow> nat \<Rightarrow> (string \<Rightarrow> 'w \<Rightarrow> ('e + json) \<times> 'w) \<Rightarrow> string list \<Rightarrow> KVCache \<Rightarrow> 'w
     \<Rightarrow> ('e + json) list \<times> KVCache \<times> 'w" where
  "interpret_each c0 tg tp interpretVariant [] c w = ([], c, w)"
| "interpret_each c0 tg tp interpretVariant (h # rest) c w =
     (case KVCache_getOrSet c0 tg tp (''variant:'' @ h) (interpretVariant h) variant_options w of
        (out, written, w') \<Rightarrow>
          (let c' = (if KVCache_get c0 tg (''variant:'' @ h) = JNull
                     then (case out of
                             Inl err \<Rightarrow> c
                           | Inr v \<Rightarrow> KVCache_set c tp (''variant:'' @ h) v variant_options)
                     else c)
           in case interpret_each c0 tg tp interpretVariant rest c' w' of
                (outs, c'', w'') \<Rightarrow> (out # outs, c'', w'')))"




definition upstream :: "string \<Rightarrow> nat \<Rightarrow> (string + json) \<times> nat" where
  "upstream h n = (if h = ''BRAF:c.1799T>A'' then Inr (JStr ''pathogenic'') else Inl ''upstream 503'', Suc n)"


section \<open>Facts about the cache\<close>

lemma getKey_inject: "getKey c k = getKey c k' \<longleftrightarrow> k = k'"
  by (simp add: getKey_def)

lemma getKey_set [simp]: "getKey (KVCache_set c now key v options) k = getKey c k"
  by (simp add: getKey_def KVCache_set_def Let_def)

lemma getKey_delete [simp]: "getKey (KVCache_delete c key) k = getKey c k"
  by (simp add: getKey_def KVCache_delete_def)

lemma kv_set_same:
  "kv (KVCache_set c now key v options) (getKey c key) =
     Some \<lparr>text_of = JSON_stringify v,
           expires_at = (if truthy_ttl (ttl options) then map_option (\<lambda>t. now + t) (ttl options) else None),
           entry_metadata = metadata options\<rparr>"
  by (cases "metadata options") (simp_all add: KVCache_set_def Let_def kv_put_def)

lemma kv_set_other:
  "k \<noteq> key \<Longrightarrow> kv (KVCache_set c now key v options) (getKey c k) = kv c (getKey c k)"
  by (simp add: KVCache_set_def Let_def kv_put_def getKey_inject)

text \<open>A stored JSON null reads back as null whatever the time.\<close>

lemma get_after_set_null: "KVCache_get (KVCache_set c now key JNull options) t key = JNull"
  by (simp add: KVCache_get_def kv_get_json_def kv_set_same JSON_stringify_def)

text \<open>A key that misses keeps missing as time goes on: expiry never brings a value back.\<close>

lemma get_miss_later:
  assumes "KVCache_get c t key = JNull" and "t \<le> t'"
  shows "KVCache_get c t' key = JNull"
  using assms
  by (auto simp: KVCache_get_def kv_get_json_def expired_def split: option.splits if_splits)

text \<open>Reading a key right after it was set, at any time.\<close>

lemma get_after_set:
  "KVCache_get (KVCache_set c now key v options) t' key =
     (case ttl options of
        None \<Rightarrow> v
      | Some n \<Rightarrow> if n \<noteq> 0 \<and> now + n \<le> t' then JNull else v)"
  by (simp add: KVCache_get_def kv_get_json_def kv_set_same JSON_stringify_def expired_def
        truthy_ttl_def split: option.splits)

lemma has_after_set:
  "KVCache_has (KVCache_set c now key v options) t' key =
     (v \<noteq> JNull \<and> (case ttl options of None \<Rightarrow> True | Some n \<Rightarrow> n = 0 \<or> t' < now + n))"
  by (auto simp: KVCache_has_def get_after_set split: option.splits)

lemma getOrSet_miss:
  assumes "KVCache_get c t key = JNull"
  shows "KVCache_getOrSet c t tp key fn options w =
           (case fn w of
              (Inl err, w') \<Rightarrow> (Inl err, c, w')
            | (Inr v, w') \<Rightarrow> (Inr v, KVCache_set c tp key v options, w'))"
  using assms by (simp add: KVCache_getOrSet_def Let_def)

text \<open>Deleting a key.\<close>

lemma cache_delete_unmapped:
  assumes "kv c (getKey c key) = None"
  shows "KVCache_delete c key = c"
proof -
  have "(kv c)(getKey c key := None) = kv c"
    using assms by (simp add: fun_upd_idem)
  then show ?thesis
    by (simp add: KVCache_delete_def kv_delete_def)
qed

lemma cache_delete_twice:
  "KVCache_delete (KVCache_delete c key) key = KVCache_delete c key"
  by (simp add: KVCache_delete_def kv_delete_def getKey_def)

lemma get_after_delete:
  "KVCache_get (KVCache_delete c key) t k = (if k = key then JNull else KVCache_get c t k)"
  by (simp add: KVCache_get_def KVCache_delete_def kv_delete_def kv_get_json_def getKey_def)

lemma cache_delete_absent_unseen:
  assumes "KVCache_get c t key = JNull" and "t \<le> t'"
  shows "KVCache_get (KVCache_delete c key) t' k = KVCache_get c t' k"
  using get_miss_later [OF assms] by (simp add: get_after_delete)

section \<open>Claims about the cache\<close>

text \<open>
  C10. When the compute function of \<open>getOrSet\<close> succeeds with null on a missing key,
  the null is written to the store as JSON null, yet it is never seen as a hit: at every
  later time \<open>get\<close> on the key returns null (absent), \<open>has\<close> is false, and another
  \<open>getOrSet\<close> on the key runs its compute function again.
\<close>

theorem null_result_round_trips_to_miss:
  fixes gn :: "'v \<Rightarrow> ('f + json) \<times> 'v"
  assumes miss: "KVCache_get c t key = JNull"
    and null: "fn w = (Inr JNull, w')"
  shows "KVCache_getOrSet c t tp key fn options w
           = (Inr JNull, KVCache_set c tp key JNull options, w')
       \<and> map_option text_of (kv (KVCache_set c tp key JNull options) (getKey c key))
           = Some (JSON_stringify JNull)
       \<and> KVCache_get (KVCache_set c tp key JNull options) t' key = JNull
       \<and> \<not> KVCache_has (KVCache_set c tp key JNull options) t' key
       \<and> KVCache_getOrSet (KVCache_set c tp key JNull options) t' tq key gn options' u
           = (case gn u of
                (Inl err, u') \<Rightarrow> (Inl err, KVCache_set c tp key JNull options, u')
              | (Inr v, u') \<Rightarrow>
                  (Inr v, KVCache_set (KVCache_set c tp key JNull options) tq key v options', u'))"
proof -
  let ?c' = "KVCache_set c tp key JNull options"
  have first: "KVCache_getOrSet c t tp key fn options w = (Inr JNull, ?c', w')"
    using miss null by (simp add: getOrSet_miss)
  have written: "map_option text_of (kv ?c' (getKey c key)) = Some (JSON_stringify JNull)"
    by (simp add: kv_set_same)
  have absent: "KVCache_get ?c' t' key = JNull"
    by (rule get_after_set_null)
  have nohit: "\<not> KVCache_has ?c' t' key"
    by (simp add: KVCache_has_def absent)
  have again: "KVCache_getOrSet ?c' t' tq key gn options' u
      = (case gn u of
           (Inl err, u') \<Rightarrow> (Inl err, ?c', u')
         | (Inr v, u') \<Rightarrow> (Inr v, KVCache_set ?c' tq key v options', u'))"
    by (rule getOrSet_miss) (rule absent)
  show ?thesis
    using first written absent nohit again by simp
qed

theorem null_result_round_trips_to_miss_witness:
  "KVCache_get \<lparr>kv = Map.empty, namespace = ''variants''\<rparr> 0 ''k'' = JNull
   \<and> KVCache_getOrSet \<lparr>kv = Map.empty, namespace = ''variants''\<rparr> 0 0 ''k''
         (\<lambda>n::nat. (Inr JNull :: unit + json, Suc n)) no_options 0
       = (Inr JNull, KVCache_set \<lparr>kv = Map.empty, namespace = ''variants''\<rparr> 0 ''k'' JNull no_options, Suc 0)
   \<and> \<not> KVCache_has (KVCache_set \<lparr>kv = Map.empty, namespace = ''variants''\<rparr> 0 ''k'' JNull no_options) 7 ''k''
   \<and> snd (snd (KVCache_getOrSet
         (KVCache_set \<lparr>kv = Map.empty, namespace = ''variants''\<rparr> 0 ''k'' JNull no_options) 7 7 ''k''
         (\<lambda>n::nat. (Inr JNull :: unit + json, Suc n)) no_options (Suc 0))) = Suc (Suc 0)"
proof -
  let ?c = "\<lparr>kv = Map.empty, namespace = ''variants''\<rparr>"
  let ?fn = "\<lambda>n::nat. (Inr JNull :: unit + json, Suc n)"
  have miss: "KVCache_get ?c 0 ''k'' = JNull"
    by (simp add: KVCache_get_def kv_get_json_def)
  have null: "?fn 0 = (Inr JNull, Suc 0)"
    by simp
  note th = null_result_round_trips_to_miss
    [where c = ?c and t = 0 and key = "''k''" and fn = ?fn and w = 0 and w' = "Suc 0"
       and tp = 0 and options = no_options and t' = 7 and tq = 7 and gn = ?fn
       and options' = no_options and u = "Suc 0", OF miss null]
  from th have first: "KVCache_getOrSet ?c 0 0 ''k'' ?fn no_options 0
      = (Inr JNull, KVCache_set ?c 0 ''k'' JNull no_options, Suc 0)"
    by (rule conjunct1)
  from th have nohit: "\<not> KVCache_has (KVCache_set ?c 0 ''k'' JNull no_options) 7 ''k''"
    by simp
  from th have again: "snd (snd (KVCache_getOrSet (KVCache_set ?c 0 ''k'' JNull no_options) 7 7 ''k''
      ?fn no_options (Suc 0))) = Suc (Suc 0)"
    by simp
  show ?thesis
    using miss first nohit again by simp
qed

text \<open>
  C2. When the key misses and the compute function fails, \<open>getOrSet\<close> fails with that
  same error and returns the cache as it was: nothing is stored. The key stays absent at
  every later time, and a later \<open>getOrSet\<close> on the key runs its compute function
  again.
\<close>

theorem getOrSet_failure_not_cached:
  fixes gn :: "'v \<Rightarrow> ('f + json) \<times> 'v"
  assumes miss: "KVCache_get c t key = JNull"
    and fails: "fn w = (Inl err, w')"
    and later: "t \<le> t'"
  shows "KVCache_getOrSet c t tp key fn options w = (Inl err, c, w')
       \<and> KVCache_get c t' key = JNull
       \<and> \<not> KVCache_has c t' key
       \<and> KVCache_getOrSet c t' tq key gn options' u
           = (case gn u of
                (Inl err', u') \<Rightarrow> (Inl err', c, u')
              | (Inr v, u') \<Rightarrow> (Inr v, KVCache_set c tq key v options', u'))"
proof -
  have first: "KVCache_getOrSet c t tp key fn options w = (Inl err, c, w')"
    using miss fails by (simp add: getOrSet_miss)
  have absent: "KVCache_get c t' key = JNull"
    using miss later by (rule get_miss_later)
  have again: "KVCache_getOrSet c t' tq key gn options' u
      = (case gn u of
           (Inl err', u') \<Rightarrow> (Inl err', c, u')
         | (Inr v, u') \<Rightarrow> (Inr v, KVCache_set c tq key v options', u'))"
    using absent by (rule getOrSet_miss)
  show ?thesis
    using first absent again by (simp add: KVCache_has_def)
qed

theorem getOrSet_failure_not_cached_witness:
  "KVCache_get \<lparr>kv = Map.empty, namespace = ''variants''\<rparr> 3 ''k'' = JNull
   \<and> KVCache_getOrSet \<lparr>kv = Map.empty, namespace = ''variants''\<rparr> 3 4 ''k''
         (\<lambda>n::nat. (Inl ''503'' :: string + json, Suc n)) no_options 0
       = (Inl ''503'', \<lparr>kv = Map.empty, namespace = ''variants''\<rparr>, Suc 0)
   \<and> KVCache_getOrSet \<lparr>kv = Map.empty, namespace = ''variants''\<rparr> 9 9 ''k''
         (\<lambda>n::nat. (Inl ''503'' :: string + json, Suc n)) no_options (Suc 0)
       = (Inl ''503'', \<lparr>kv = Map.empty, namespace = ''variants''\<rparr>, Suc (Suc 0))"
proof -
  let ?c = "\<lparr>kv = Map.empty, namespace = ''variants''\<rparr>"
  let ?fn = "\<lambda>n::nat. (Inl ''503'' :: string + json, Suc n)"
  have miss: "KVCache_get ?c 3 ''k'' = JNull"
    by (simp add: KVCache_get_def kv_get_json_def)
  have fails: "?fn 0 = (Inl ''503'', Suc 0)"
    by simp
  have later: "(3::nat) \<le> 9"
    by simp
  note th = getOrSet_failure_not_cached
    [where c = ?c and t = 3 and key = "''k''" and fn = ?fn and w = 0 and w' = "Suc 0"
       and err = "''503''" and t' = 9 and tp = 4 and options = no_options
       and tq = 9 and gn = ?fn and options' = no_options and u = "Suc 0",
     OF miss fails later]
  from th have first: "KVCache_getOrSet ?c 3 4 ''k'' ?fn no_options 0 = (Inl ''503'', ?c, Suc 0)"
    by (rule conjunct1)
  from th have again: "KVCache_getOrSet ?c 9 9 ''k'' ?fn no_options (Suc 0)
      = (Inl ''503'', ?c, Suc (Suc 0))"
    by simp
  show ?thesis
    using miss first again by simp
qed

text \<open>
  C8, as the code has it. One call of \<open>getOrSet\<close> does not run the compute function
  when the key hits (the world of the function is untouched and the cached value is
  returned), and runs it exactly once when the key misses (the outcome and the world are
  those of one application). When the compute succeeds, the value is stored with the given
  options before it is returned. A stored value other than null is returned by every later
  \<open>get\<close> on the key, as a hit, before the entry expires; the entry expires \<open>ttl\<close>
  seconds after the write when the ttl is greater than 0 and never when the ttl is omitted
  or 0. A null result is stored as well, but no later \<open>get\<close> sees it: it reads as a miss.
\<close>

theorem getOrSet_computes_at_most_once:
  "(KVCache_get c t key \<noteq> JNull \<longrightarrow>
      KVCache_getOrSet c t tp key fn options w = (Inr (KVCache_get c t key), c, w))
   \<and> (KVCache_get c t key = JNull \<longrightarrow>
        fst (KVCache_getOrSet c t tp key fn options w) = fst (fn w)
      \<and> snd (snd (KVCache_getOrSet c t tp key fn options w)) = snd (fn w))
   \<and> (KVCache_get c t key = JNull \<and> fn w = (Inr v, w') \<longrightarrow>
        KVCache_getOrSet c t tp key fn options w = (Inr v, KVCache_set c tp key v options, w'))
   \<and> (v \<noteq> JNull \<and> (case ttl options of None \<Rightarrow> True | Some n \<Rightarrow> n = 0 \<or> t' < tp + n) \<longrightarrow>
        KVCache_get (KVCache_set c tp key v options) t' key = v
      \<and> KVCache_has (KVCache_set c tp key v options) t' key)
   \<and> ((case ttl options of None \<Rightarrow> False | Some n \<Rightarrow> 0 < n \<and> tp + n \<le> t') \<longrightarrow>
        KVCache_get (KVCache_set c tp key v options) t' key = JNull)
   \<and> KVCache_get (KVCache_set c tp key JNull options) t' key = JNull
   \<and> \<not> KVCache_has (KVCache_set c tp key JNull options) t' key"
proof -
  have hit: "KVCache_getOrSet c t tp key fn options w = (Inr (KVCache_get c t key), c, w)"
    if "KVCache_get c t key \<noteq> JNull"
    using that by (simp add: KVCache_getOrSet_def Let_def)
  have once: "fst (KVCache_getOrSet c t tp key fn options w) = fst (fn w)
      \<and> snd (snd (KVCache_getOrSet c t tp key fn options w)) = snd (fn w)"
    if "KVCache_get c t key = JNull"
    using that by (simp add: getOrSet_miss split: prod.splits sum.splits)
  have stored: "KVCache_getOrSet c t tp key fn options w
      = (Inr v, KVCache_set c tp key v options, w')"
    if "KVCache_get c t key = JNull" and "fn w = (Inr v, w')"
    using that by (simp add: getOrSet_miss)
  have visible: "KVCache_get (KVCache_set c tp key v options) t' key = v
      \<and> KVCache_has (KVCache_set c tp key v options) t' key"
    if "v \<noteq> JNull" and "case ttl options of None \<Rightarrow> True | Some n \<Rightarrow> n = 0 \<or> t' < tp + n"
    using that by (auto simp: has_after_set get_after_set split: option.splits)
  have gone: "KVCache_get (KVCache_set c tp key v options) t' key = JNull"
    if "case ttl options of None \<Rightarrow> False | Some n \<Rightarrow> 0 < n \<and> tp + n \<le> t'"
    using that by (auto simp: get_after_set split: option.splits)
  have null: "KVCache_get (KVCache_set c tp key JNull options) t' key = JNull
      \<and> \<not> KVCache_has (KVCache_set c tp key JNull options) t' key"
    by (simp add: has_after_set get_after_set_null)
  show ?thesis
    using hit once stored visible gone null by blast
qed

theorem getOrSet_computes_at_most_once_witness:
  "KVCache_getOrSet \<lparr>kv = Map.empty, namespace = ''variants''\<rparr> 10 12 ''variant:BRAF:c.1799T>A''
       (\<lambda>n::nat. (Inr (JStr ''pathogenic'') :: unit + json, Suc n))
       \<lparr>ttl = Some CACHE_TTL_VARIANT, metadata = None\<rparr> 0
     = (Inr (JStr ''pathogenic''),
        KVCache_set \<lparr>kv = Map.empty, namespace = ''variants''\<rparr> 12 ''variant:BRAF:c.1799T>A''
          (JStr ''pathogenic'') \<lparr>ttl = Some CACHE_TTL_VARIANT, metadata = None\<rparr>,
        Suc 0)
   \<and> snd (snd (KVCache_getOrSet \<lparr>kv = Map.empty, namespace = ''variants''\<rparr> 10 12
        ''variant:BRAF:c.1799T>A''
        (\<lambda>n::nat. (Inl () :: unit + json, Suc n))
        \<lparr>ttl = Some CACHE_TTL_VARIANT, metadata = None\<rparr> 0)) = Suc 0
   \<and> KVCache_get
        (KVCache_set \<lparr>kv = Map.empty, namespace = ''variants''\<rparr> 12 ''variant:BRAF:c.1799T>A''
          (JStr ''pathogenic'') \<lparr>ttl = Some CACHE_TTL_VARIANT, metadata = None\<rparr>)
        86411 ''variant:BRAF:c.1799T>A'' = JStr ''pathogenic''
   \<and> KVCache_has
        (KVCache_set \<lparr>kv = Map.empty, namespace = ''variants''\<rparr> 12 ''variant:BRAF:c.1799T>A''
          (JStr ''pathogenic'') \<lparr>ttl = Some CACHE_TTL_VARIANT, metadata = None\<rparr>)
        86411 ''variant:BRAF:c.1799T>A''
   \<and> KVCache_get
        (KVCache_set \<lparr>kv = Map.empty, namespace = ''variants''\<rparr> 12 ''variant:BRAF:c.1799T>A''
          (JStr ''pathogenic'') \<lparr>ttl = Some CACHE_TTL_VARIANT, metadata = None\<rparr>)
        86412 ''variant:BRAF:c.1799T>A'' = JNull
   \<and> KVCache_getOrSet
        (KVCache_set \<lparr>kv = Map.empty, namespace = ''variants''\<rparr> 12 ''variant:BRAF:c.1799T>A''
          (JStr ''pathogenic'') \<lparr>ttl = Some CACHE_TTL_VARIANT, metadata = None\<rparr>)
        86411 86411 ''variant:BRAF:c.1799T>A''
        (\<lambda>n::nat. (Inr (JStr ''pathogenic'') :: unit + json, Suc n))
        \<lparr>ttl = Some CACHE_TTL_VARIANT, metadata = None\<rparr> (Suc 0)
     = (Inr (JStr ''pathogenic''),
        KVCache_set \<lparr>kv = Map.empty, namespace = ''variants''\<rparr> 12 ''variant:BRAF:c.1799T>A''
          (JStr ''pathogenic'') \<lparr>ttl = Some CACHE_TTL_VARIANT, metadata = None\<rparr>,
        Suc 0)"
proof -
  let ?c = "\<lparr>kv = Map.empty, namespace = ''variants''\<rparr>"
  let ?k = "''variant:BRAF:c.1799T>A''"
  let ?v = "JStr ''pathogenic''"
  let ?fn = "\<lambda>n::nat. (Inr ?v :: unit + json, Suc n)"
  let ?bad = "\<lambda>n::nat. (Inl () :: unit + json, Suc n)"
  let ?o = "\<lparr>ttl = Some CACHE_TTL_VARIANT, metadata = None\<rparr>"
  let ?c' = "KVCache_set ?c 12 ?k ?v ?o"
  have miss: "KVCache_get ?c 10 ?k = JNull"
    by (simp add: KVCache_get_def kv_get_json_def)
  have live: "case ttl ?o of None \<Rightarrow> True | Some n \<Rightarrow> n = 0 \<or> (86411::nat) < 12 + n"
    by (simp add: CACHE_TTL_VARIANT_def)
  note on_miss = getOrSet_computes_at_most_once
    [where c = ?c and t = 10 and tp = 12 and key = ?k and fn = ?fn and options = ?o
       and w = 0 and v = ?v and w' = "Suc 0" and t' = 86411]
  from on_miss miss have first: "KVCache_getOrSet ?c 10 12 ?k ?fn ?o 0 = (Inr ?v, ?c', Suc 0)"
    by simp
  from on_miss live have seen: "KVCache_get ?c' 86411 ?k = ?v"
    by (simp add: CACHE_TTL_VARIANT_def)
  from on_miss live have hit: "KVCache_has ?c' 86411 ?k"
    by (simp add: CACHE_TTL_VARIANT_def)
  have over: "case ttl ?o of None \<Rightarrow> False | Some n \<Rightarrow> 0 < n \<and> 12 + n \<le> (86412::nat)"
    by (simp add: CACHE_TTL_VARIANT_def)
  note on_late = getOrSet_computes_at_most_once
    [where c = ?c and t = 10 and tp = 12 and key = ?k and fn = ?fn and options = ?o
       and w = 0 and v = ?v and w' = "Suc 0" and t' = 86412]
  from on_late over have gone: "KVCache_get ?c' 86412 ?k = JNull"
    by (simp add: CACHE_TTL_VARIANT_def)
  note on_fail = getOrSet_computes_at_most_once
    [where c = ?c and t = 10 and tp = 12 and key = ?k and fn = ?bad and options = ?o and w = 0]
  from on_fail miss have once: "snd (snd (KVCache_getOrSet ?c 10 12 ?k ?bad ?o 0)) = Suc 0"
    by simp
  note on_hit = getOrSet_computes_at_most_once
    [where c = ?c' and t = 86411 and tp = 86411 and key = ?k and fn = ?fn and options = ?o
       and w = "Suc 0"]
  from on_hit seen have second: "KVCache_getOrSet ?c' 86411 86411 ?k ?fn ?o (Suc 0)
      = (Inr ?v, ?c', Suc 0)"
    by simp
  show ?thesis
    using first once seen hit gone second by simp
qed

text \<open>
  C8 as stated fails for a compute function that succeeds with null (a drug the source
  does not know): the null is stored with its expiry, yet one second later \<open>has\<close> is
  false and the next \<open>getOrSet\<close> runs the compute function again. It also fails for a
  ttl of 0: the value is stored without expiry and is still read 100 seconds later.
\<close>

theorem null_result_is_stored_but_not_seen:
  "KVCache_getOrSet \<lparr>kv = Map.empty, namespace = ''genes''\<rparr> 10 12 ''drug:warfarin''
       (\<lambda>n::nat. (Inr JNull :: unit + json, Suc n)) \<lparr>ttl = Some CACHE_TTL_DRUG, metadata = None\<rparr> 0
     = (Inr JNull,
        KVCache_set \<lparr>kv = Map.empty, namespace = ''genes''\<rparr> 12 ''drug:warfarin'' JNull
          \<lparr>ttl = Some CACHE_TTL_DRUG, metadata = None\<rparr>,
        Suc 0)
   \<and> map_option expires_at
        (kv (KVCache_set \<lparr>kv = Map.empty, namespace = ''genes''\<rparr> 12 ''drug:warfarin'' JNull
               \<lparr>ttl = Some CACHE_TTL_DRUG, metadata = None\<rparr>) ''genes:drug:warfarin'')
     = Some (Some 2592012)
   \<and> \<not> KVCache_has
        (KVCache_set \<lparr>kv = Map.empty, namespace = ''genes''\<rparr> 12 ''drug:warfarin'' JNull
           \<lparr>ttl = Some CACHE_TTL_DRUG, metadata = None\<rparr>) 13 ''drug:warfarin''
   \<and> snd (snd (KVCache_getOrSet
        (KVCache_set \<lparr>kv = Map.empty, namespace = ''genes''\<rparr> 12 ''drug:warfarin'' JNull
           \<lparr>ttl = Some CACHE_TTL_DRUG, metadata = None\<rparr>) 13 14 ''drug:warfarin''
        (\<lambda>n::nat. (Inr JNull :: unit + json, Suc n)) \<lparr>ttl = Some CACHE_TTL_DRUG, metadata = None\<rparr>
        (Suc 0))) = Suc (Suc 0)
   \<and> KVCache_getOrSet \<lparr>kv = Map.empty, namespace = ''genes''\<rparr> 10 12 ''k''
       (\<lambda>n::nat. (Inr (JNum 1) :: unit + json, Suc n)) \<lparr>ttl = Some 0, metadata = None\<rparr> 0
     = (Inr (JNum 1),
        KVCache_set \<lparr>kv = Map.empty, namespace = ''genes''\<rparr> 12 ''k'' (JNum 1)
          \<lparr>ttl = Some 0, metadata = None\<rparr>,
        Suc 0)
   \<and> map_option expires_at
        (kv (KVCache_set \<lparr>kv = Map.empty, namespace = ''genes''\<rparr> 12 ''k'' (JNum 1)
               \<lparr>ttl = Some 0, metadata = None\<rparr>) ''genes:k'')
     = Some None
   \<and> KVCache_get
        (KVCache_set \<lparr>kv = Map.empty, namespace = ''genes''\<rparr> 12 ''k'' (JNum 1)
           \<lparr>ttl = Some 0, metadata = None\<rparr>) 112 ''k''
     = JNum 1"
proof -
  let ?c = "\<lparr>kv = Map.empty, namespace = ''genes''\<rparr>"
  let ?o = "\<lparr>ttl = Some CACHE_TTL_DRUG, metadata = None\<rparr>"
  let ?fn = "\<lambda>n::nat. (Inr JNull :: unit + json, Suc n)"
  have miss: "KVCache_get ?c 10 ''drug:warfarin'' = JNull"
    by (simp add: KVCache_get_def kv_get_json_def)
  have first: "KVCache_getOrSet ?c 10 12 ''drug:warfarin'' ?fn ?o 0
      = (Inr JNull, KVCache_set ?c 12 ''drug:warfarin'' JNull ?o, Suc 0)"
    using miss by (simp add: getOrSet_miss)
  have key: "''genes:drug:warfarin'' = getKey ?c ''drug:warfarin''" "''genes:k'' = getKey ?c ''k''"
    by (simp_all add: getKey_def)
  have stored: "map_option expires_at (kv (KVCache_set ?c 12 ''drug:warfarin'' JNull ?o)
      ''genes:drug:warfarin'') = Some (Some 2592012)"
    unfolding key by (simp add: kv_set_same truthy_ttl_def CACHE_TTL_DRUG_def)
  have unseen: "\<not> KVCache_has (KVCache_set ?c 12 ''drug:warfarin'' JNull ?o) 13 ''drug:warfarin''"
    by (simp add: has_after_set)
  have again: "snd (snd (KVCache_getOrSet (KVCache_set ?c 12 ''drug:warfarin'' JNull ?o) 13 14
      ''drug:warfarin'' ?fn ?o (Suc 0))) = Suc (Suc 0)"
    by (simp add: getOrSet_miss get_after_set_null)
  have miss0: "KVCache_get ?c 10 ''k'' = JNull"
    by (simp add: KVCache_get_def kv_get_json_def)
  have first0: "KVCache_getOrSet ?c 10 12 ''k'' (\<lambda>n::nat. (Inr (JNum 1) :: unit + json, Suc n))
      \<lparr>ttl = Some 0, metadata = None\<rparr> 0
      = (Inr (JNum 1), KVCache_set ?c 12 ''k'' (JNum 1) \<lparr>ttl = Some 0, metadata = None\<rparr>, Suc 0)"
    using miss0 by (simp add: getOrSet_miss)
  have zero: "map_option expires_at (kv (KVCache_set ?c 12 ''k'' (JNum 1)
      \<lparr>ttl = Some 0, metadata = None\<rparr>) ''genes:k'') = Some None"
    unfolding key by (simp add: kv_set_same truthy_ttl_def)
  have late: "KVCache_get (KVCache_set ?c 12 ''k'' (JNum 1) \<lparr>ttl = Some 0, metadata = None\<rparr>)
      112 ''k'' = JNum 1"
    by (simp add: get_after_set)
  show ?thesis
    using first stored unseen again first0 zero late by blast
qed

text \<open>
  C4, as the code has it. For a TTL \<open>n > 0\<close>: after \<open>set\<close> at time \<open>now\<close>, \<open>get\<close>
  returns the value at every time less than \<open>n\<close> seconds later and null (absent) from
  \<open>n\<close> seconds on. A ttl of 0 is falsy in \<^verbatim>\<open>if (options.ttl)\<close> and is treated as
  omitted: the entry never expires.
\<close>

theorem ttl_expiry:
  "(0 < n \<and> d < n \<longrightarrow>
      KVCache_get (KVCache_set c now key v \<lparr>ttl = Some n, metadata = m\<rparr>) (now + d) key = v)
   \<and> (0 < n \<and> n \<le> d \<longrightarrow>
      KVCache_get (KVCache_set c now key v \<lparr>ttl = Some n, metadata = m\<rparr>) (now + d) key = JNull)
   \<and> KVCache_get (KVCache_set c now key v \<lparr>ttl = Some 0, metadata = m\<rparr>) (now + d) key = v
   \<and> KVCache_get (KVCache_set c now key v \<lparr>ttl = None, metadata = m\<rparr>) (now + d) key = v"
  by (simp add: get_after_set)

theorem ttl_expiry_witness:
  "KVCache_get
      (KVCache_set \<lparr>kv = Map.empty, namespace = ''variants''\<rparr> 1000 ''variant:BRAF:c.1799T>A''
         (JObj [(''gene'', JStr ''BRAF'')]) \<lparr>ttl = Some 86400, metadata = None\<rparr>)
      (1000 + 0) ''variant:BRAF:c.1799T>A'' = JObj [(''gene'', JStr ''BRAF'')]
   \<and> KVCache_get
      (KVCache_set \<lparr>kv = Map.empty, namespace = ''variants''\<rparr> 1000 ''variant:BRAF:c.1799T>A''
         (JObj [(''gene'', JStr ''BRAF'')]) \<lparr>ttl = Some 86400, metadata = None\<rparr>)
      (1000 + 86399) ''variant:BRAF:c.1799T>A'' = JObj [(''gene'', JStr ''BRAF'')]
   \<and> KVCache_get
      (KVCache_set \<lparr>kv = Map.empty, namespace = ''variants''\<rparr> 1000 ''variant:BRAF:c.1799T>A''
         (JObj [(''gene'', JStr ''BRAF'')]) \<lparr>ttl = Some 86400, metadata = None\<rparr>)
      (1000 + 86400) ''variant:BRAF:c.1799T>A'' = JNull
   \<and> KVCache_get
      (KVCache_set \<lparr>kv = Map.empty, namespace = ''variants''\<rparr> 1000 ''variant:BRAF:c.1799T>A''
         (JObj [(''gene'', JStr ''BRAF'')]) \<lparr>ttl = Some 86400, metadata = None\<rparr>)
      (1000 + 86401) ''variant:BRAF:c.1799T>A'' = JNull"
proof -
  let ?c = "\<lparr>kv = Map.empty, namespace = ''variants''\<rparr>"
  let ?k = "''variant:BRAF:c.1799T>A''"
  let ?v = "JObj [(''gene'', JStr ''BRAF'')]"
  note th = ttl_expiry [where n = 86400 and c = ?c and now = 1000 and key = ?k and v = ?v
      and m = None]
  have a: "KVCache_get (KVCache_set ?c 1000 ?k ?v \<lparr>ttl = Some 86400, metadata = None\<rparr>)
      (1000 + 0) ?k = ?v"
    using th [where d = 0] by simp
  have b: "KVCache_get (KVCache_set ?c 1000 ?k ?v \<lparr>ttl = Some 86400, metadata = None\<rparr>)
      (1000 + 86399) ?k = ?v"
    using th [where d = 86399] by simp
  have c: "KVCache_get (KVCache_set ?c 1000 ?k ?v \<lparr>ttl = Some 86400, metadata = None\<rparr>)
      (1000 + 86400) ?k = JNull"
    using th [where d = 86400] by simp
  have d: "KVCache_get (KVCache_set ?c 1000 ?k ?v \<lparr>ttl = Some 86400, metadata = None\<rparr>)
      (1000 + 86401) ?k = JNull"
    using th [where d = 86401] by simp
  show ?thesis
    using a b c d by simp
qed

text \<open>
  C4 as stated fails for a TTL of 0: five seconds after \<open>set\<close> with \<open>ttl = 0\<close>, which
  is not less than 0 seconds, \<open>get\<close> still returns the value.
\<close>

theorem ttl_zero_never_expires:
  "KVCache_get (KVCache_set \<lparr>kv = Map.empty, namespace = ''variants''\<rparr> 100 ''k'' (JNum 1)
       \<lparr>ttl = Some 0, metadata = None\<rparr>) (100 + 5) ''k'' = JNum 1"
  by (simp add: get_after_set)

section \<open>Facts about the registry\<close>

lemma js_or_zero [simp]: "js_or a 0 = a"
  by (simp add: js_or_def)

lemma js_or_nonzero: "a \<noteq> 0 \<Longrightarrow> js_or a b = a"
  by (simp add: js_or_def)

lemma fetch_nonempty: "variants reg \<noteq> [] \<Longrightarrow> fetch reg now r = route reg now r"
  by (simp add: fetch_def)

lemma present_nonempty: "map_of (variants reg) h = Some e \<Longrightarrow> variants reg \<noteq> []"
  by auto

text \<open>The index after each operation, whatever the storage does.\<close>

lemma variants_getVariant:
  "variants (snd (getVariant reg now h)) =
     (case map_of (variants reg) h of
        None \<Rightarrow> variants reg
      | Some e \<Rightarrow> AList.update h (e\<lparr>access_count := access_count e + 1, updated_at := now\<rparr>) (variants reg))"
  by (simp add: getVariant_def Let_def storage_put_def split: option.splits)

lemma variants_storeVariant:
  "variants (snd (storeVariant reg now data)) =
     AList.update (hgvs data) (new_entry (map_of (variants reg) (hgvs data)) now data) (variants reg)"
  by (simp add: storeVariant_def Let_def storage_put_def)

lemma variants_deleteVariant:
  "variants (snd (deleteVariant reg h)) = AList.delete h (variants reg)"
  by (simp add: deleteVariant_def Let_def storage_delete_def)

lemma variants_with_down [simp]:
  "variants (reg\<lparr>storage := st\<rparr>) = variants reg"
  by simp

text \<open>One request, seen from one entry of the index.\<close>

lemma route_entry:
  assumes present: "map_of (variants reg) h = Some e"
    and nodel: "r \<noteq> DELETE_variant h"
  shows "\<exists>e'. map_of (variants (snd (route reg now r))) h = Some e'
           \<and> access_count e' = access_count e + (if is_read h r then 1 else 0)
           \<and> updated_at e' = (if touches h r then now else updated_at e)
           \<and> (created_at e \<noteq> 0 \<longrightarrow> created_at e' = created_at e)"
proof (cases r)
  case (GET_variant k)
  then show ?thesis
    using present
    by (cases "map_of (variants reg) k")
       (auto simp: variants_getVariant update_conv')
next
  case (POST_variant data)
  then show ?thesis
    using present
    by (auto simp: variants_storeVariant update_conv' new_entry_def js_or_def)
next
  case (DELETE_variant k)
  then show ?thesis
    using present nodel by (simp add: variants_deleteVariant delete_conv')
next
  case GET_stats
  then show ?thesis
    using present by (simp add: getStats_def)
next
  case Unrouted
  then show ?thesis
    using present by simp
qed

lemma serve_entry:
  assumes "map_of (variants reg) h = Some e"
    and "DELETE_variant h \<notin> set (map (snd \<circ> snd) evs)"
  shows "\<exists>e'. map_of (variants (snd (serve reg evs))) h = Some e'
           \<and> access_count e' = access_count e + reads_of h evs
           \<and> updated_at e' = last_touch h (updated_at e) evs
           \<and> (created_at e \<noteq> 0 \<longrightarrow> created_at e' = created_at e)"
  using assms
proof (induction evs arbitrary: reg e)
  case Nil
  then show ?case by simp
next
  case (Cons ev evs)
  obtain now dn r where ev: "ev = (now, dn, r)"
    by (cases ev) auto
  let ?reg0 = "reg\<lparr>storage := (storage reg)\<lparr>down := dn\<rparr>\<rparr>"
  have present0: "map_of (variants ?reg0) h = Some e"
    using Cons.prems(1) by simp
  have r: "r \<noteq> DELETE_variant h"
    using Cons.prems(2) ev by auto
  have step: "fetch ?reg0 now r = route ?reg0 now r"
    using present0 by (intro fetch_nonempty) auto
  obtain e1 where e1: "map_of (variants (snd (route ?reg0 now r))) h = Some e1"
      "access_count e1 = access_count e + (if is_read h r then 1 else 0)"
      "updated_at e1 = (if touches h r then now else updated_at e)"
      "created_at e \<noteq> 0 \<longrightarrow> created_at e1 = created_at e"
    using route_entry [OF present0 r, of now] by blast
  have rest: "DELETE_variant h \<notin> set (map (snd \<circ> snd) evs)"
    using Cons.prems(2) by simp
  obtain e' where e': "map_of (variants (snd (serve (snd (route ?reg0 now r)) evs))) h = Some e'"
      "access_count e' = access_count e1 + reads_of h evs"
      "updated_at e' = last_touch h (updated_at e1) evs"
      "created_at e1 \<noteq> 0 \<longrightarrow> created_at e' = created_at e1"
    using Cons.IH [OF e1(1) rest] by blast
  have unfold: "snd (serve reg (ev # evs)) = snd (serve (snd (route ?reg0 now r)) evs)"
    by (simp add: ev step split: prod.splits)
  show ?case
    unfolding unfold using e1 e' by (auto simp: ev)
qed

lemma getVariant_up:
  assumes "map_of (variants reg) h = Some e" and "\<not> down (storage reg)"
  shows "getVariant reg now h =
     (Inr (Response 200 (VariantJson (e\<lparr>access_count := access_count e + 1, updated_at := now\<rparr>))),
      reg\<lparr>variants := AList.update h (e\<lparr>access_count := access_count e + 1, updated_at := now\<rparr>) (variants reg),
          storage := (storage reg)\<lparr>persisted :=
            AList.update h (e\<lparr>access_count := access_count e + 1, updated_at := now\<rparr>)
              (persisted (storage reg))\<rparr>\<rparr>)"
  using assms by (simp add: getVariant_def Let_def storage_put_def)

lemma getVariant_absent:
  "map_of (variants reg) h = None \<Longrightarrow>
     getVariant reg now h = (Inr (Response 404 (ErrorJson ''Variant not found'')), reg)"
  by (simp add: getVariant_def)

lemma serve_reads:
  assumes "map_of (variants reg) h = Some e"
  shows "fst (serve reg (reads h ts)) = map (read_reply e) (enumerate 0 ts)
       \<and> map_of (variants (snd (serve reg (reads h ts)))) h
           = Some (e\<lparr>access_count := access_count e + length ts,
                     updated_at := last (updated_at e # ts)\<rparr>)
       \<and> (ts \<noteq> [] \<longrightarrow>
            map_of (persisted (storage (snd (serve reg (reads h ts))))) h
              = Some (e\<lparr>access_count := access_count e + length ts,
                        updated_at := last (updated_at e # ts)\<rparr>))"
  using assms
proof (induction ts arbitrary: reg e)
  case Nil
  then show ?case by (simp add: reads_def)
next
  case (Cons now ts)
  let ?reg0 = "reg\<lparr>storage := (storage reg)\<lparr>down := False\<rparr>\<rparr>"
  let ?e1 = "e\<lparr>access_count := access_count e + 1, updated_at := now\<rparr>"
  have present0: "map_of (variants ?reg0) h = Some e"
    using Cons.prems by simp
  have up: "\<not> down (storage ?reg0)"
    by simp
  have f: "fetch ?reg0 now (GET_variant h) = getVariant ?reg0 now h"
    using present0 by (subst fetch_nonempty) auto
  obtain reg1 where g: "getVariant ?reg0 now h = (Inr (Response 200 (VariantJson ?e1)), reg1)"
    and idx: "map_of (variants reg1) h = Some ?e1"
    and sto: "map_of (persisted (storage reg1)) h = Some ?e1"
    using getVariant_up [OF present0 up, of now] by (simp add: update_conv')
  note IH = Cons.IH [OF idx]
  have unfold: "serve reg (reads h (now # ts)) =
      (Inr (Response 200 (VariantJson ?e1)) # fst (serve reg1 (reads h ts)),
       snd (serve reg1 (reads h ts)))"
    by (simp add: reads_def f g split: prod.splits)
  have replies: "map (read_reply ?e1) (enumerate 0 ts) = map (read_reply e) (enumerate (Suc 0) ts)"
    by (simp add: enumerate_Suc_eq read_reply_def split_def)
  have outs: "fst (serve reg (reads h (now # ts))) = map (read_reply e) (enumerate 0 (now # ts))"
    using IH replies by (simp add: unfold read_reply_def)
  have final: "map_of (variants (snd (serve reg (reads h (now # ts))))) h
      = Some (e\<lparr>access_count := access_count e + length (now # ts),
                updated_at := last (updated_at e # now # ts)\<rparr>)"
    using IH by (simp add: unfold)
  have stored: "map_of (persisted (storage (snd (serve reg (reads h (now # ts)))))) h
      = Some (e\<lparr>access_count := access_count e + length (now # ts),
                updated_at := last (updated_at e # now # ts)\<rparr>)"
  proof (cases "ts = []")
    case True
    show ?thesis
      unfolding unfold using sto True by (simp add: reads_def)
  next
    case False
    then show ?thesis using IH by (simp add: unfold)
  qed
  show ?case
    using outs final stored by blast
qed

lemma step_entry_monotone:
  assumes before: "map_of (variants reg) h = Some e"
    and after: "map_of (variants (snd (fetch (reg\<lparr>storage := (storage reg)\<lparr>down := dn\<rparr>\<rparr>) now r))) h = Some e'"
  shows "access_count e \<le> access_count e'"
proof -
  let ?reg0 = "reg\<lparr>storage := (storage reg)\<lparr>down := dn\<rparr>\<rparr>"
  have present0: "map_of (variants ?reg0) h = Some e"
    using before by simp
  have f: "fetch ?reg0 now r = route ?reg0 now r"
    using present0 by (intro fetch_nonempty) auto
  have r: "r \<noteq> DELETE_variant h"
  proof
    assume del: "r = DELETE_variant h"
    have "map_of (variants (snd (route ?reg0 now r))) h = None"
      unfolding del by (simp add: variants_deleteVariant delete_conv')
    with after f show False by simp
  qed
  from route_entry [OF present0 r, of now] after show ?thesis
    by (auto simp: f)
qed





lemma deleteVariant_absent:
  assumes "map_of (variants reg) h = None" and "map_of (persisted (storage reg)) h = None"
    and "\<not> down (storage reg)"
  shows "deleteVariant reg h = (Inr (Response 200 SuccessJson), reg)"
proof -
  have "h \<notin> fst ` set (variants reg)" and "h \<notin> fst ` set (persisted (storage reg))"
    using assms(1,2) by (simp_all add: map_of_eq_None_iff)
  then show ?thesis
    using assms(3) by (simp add: deleteVariant_def Let_def storage_delete_def)
qed

lemma deleteVariant_twice:
  "deleteVariant (snd (deleteVariant reg h)) h = deleteVariant reg h"
  by (simp add: deleteVariant_def Let_def storage_delete_def delete_idem)

lemma deleteVariant_up:
  "\<not> down (storage reg) \<Longrightarrow> fst (deleteVariant reg h) = Inr (Response 200 SuccessJson)"
  by (simp add: deleteVariant_def Let_def storage_delete_def)














text \<open>Evaluating the operations on the example shards.\<close>

lemmas shard_eval =
  fresh_shard_def new_VariantRegistry_def empty_storage_def TP53_def
  fetch_def storage_list_def storage_put_def storage_delete_def
  getVariant_def storeVariant_def deleteVariant_def getStats_def new_entry_def js_or_def Let_def

lemma stored_once: "snd (serve fresh_shard [(1000, False, POST_variant TP53)]) = warm_shard"
  by (simp add: shard_eval warm_shard_def TP53_stored_def)

lemma warm_present: "map_of (variants warm_shard) ''TP53:p.R248Q'' = Some TP53_stored"
  by (simp add: warm_shard_def)


lemma warm_up: "\<not> down (storage warm_shard)"
  by (simp add: warm_shard_def)



lemma stats_twice:
  "list_calls (storage (snd (serve fresh_shard [(1, False, GET_stats), (2, False, GET_stats)]))) = 2"
  by (simp add: shard_eval)

lemma store_delete_stats:
  "list_calls (storage (snd (serve fresh_shard
      [(1, False, POST_variant TP53), (2, False, DELETE_variant ''TP53:p.R248Q''),
       (3, False, GET_stats)]))) = 2"
  by (simp add: shard_eval)

section \<open>Claims about the registry\<close>

text \<open>
  C3, as the code has it. For an entry \<open>e\<close> that is in the index of a shard under \<open>h\<close>:
  no single request, of any kind and whatever the storage does, lowers its
  \<open>access_count\<close> as long as the entry is in the index afterwards; over every sequence
  of requests without a delete of \<open>h\<close> (a delete takes the entry out of the index,
  also when its storage call fails), the entry stays and its \<open>access_count\<close> is the one
  before plus the number of reads of \<open>h\<close>, so never less.
  \<open>N\<close> reads in a row (storage working) answer with the post-increment records, the
  \<open>i\<close>-th with \<open>access_count\<close> before plus \<open>i\<close> and \<open>updated_at\<close> the time of that
  call; they leave \<open>access_count\<close> before plus \<open>N\<close> in the index and persisted. A
  \<open>getVariant\<close> on an absent key answers 404 and leaves index and storage as they were.
\<close>

theorem access_count_counts_reads:
  assumes present: "map_of (variants reg) h = Some e"
  shows "(map_of (variants (snd (fetch (reg\<lparr>storage := (storage reg)\<lparr>down := dn\<rparr>\<rparr>) now r))) h = Some e1
            \<longrightarrow> access_count e \<le> access_count e1)
       \<and> (DELETE_variant h \<notin> set (map (snd \<circ> snd) evs) \<longrightarrow>
            (\<exists>e'. map_of (variants (snd (serve reg evs))) h = Some e'
                 \<and> access_count e \<le> access_count e'
                 \<and> access_count e' = access_count e + reads_of h evs))
       \<and> fst (serve reg (reads h ts)) = map (read_reply e) (enumerate 0 ts)
       \<and> map_of (variants (snd (serve reg (reads h ts)))) h
           = Some (e\<lparr>access_count := access_count e + length ts,
                     updated_at := last (updated_at e # ts)\<rparr>)
       \<and> (ts \<noteq> [] \<longrightarrow>
            map_of (persisted (storage (snd (serve reg (reads h ts))))) h
              = Some (e\<lparr>access_count := access_count e + length ts,
                        updated_at := last (updated_at e # ts)\<rparr>))
       \<and> (map_of (variants other) k = None \<longrightarrow>
            getVariant other now' k = (Inr (Response 404 (ErrorJson ''Variant not found'')), other))"
proof -
  have step: "access_count e \<le> access_count e1"
    if "map_of (variants (snd (fetch (reg\<lparr>storage := (storage reg)\<lparr>down := dn\<rparr>\<rparr>) now r))) h = Some e1"
    using present that by (rule step_entry_monotone)
  have seq: "\<exists>e'. map_of (variants (snd (serve reg evs))) h = Some e'
               \<and> access_count e \<le> access_count e'
               \<and> access_count e' = access_count e + reads_of h evs"
    if "DELETE_variant h \<notin> set (map (snd \<circ> snd) evs)"
    using serve_entry [OF present that] by auto
  note rd = serve_reads [OF present, of ts]
  show ?thesis
    using step seq rd getVariant_absent by blast
qed

theorem access_count_counts_reads_witness:
  "map_of (variants warm_shard) ''TP53:p.R248Q'' = Some TP53_stored
   \<and> (\<exists>e'. map_of (variants (snd (serve warm_shard
                 [(2000, True, GET_variant ''TP53:p.R248Q''),
                  (3000, False, POST_variant TP53),
                  (4000, False, DELETE_variant ''BRAF:c.1799T>A''),
                  (5000, False, GET_variant ''TP53:p.R248Q'')]))) ''TP53:p.R248Q'' = Some e'
          \<and> access_count e' = 2)
   \<and> fst (serve warm_shard (reads ''TP53:p.R248Q'' [2000, 3000]))
     = [Inr (Response 200 (VariantJson (TP53_stored\<lparr>access_count := 1, updated_at := 2000\<rparr>))),
        Inr (Response 200 (VariantJson (TP53_stored\<lparr>access_count := 2, updated_at := 3000\<rparr>)))]
   \<and> map_of (variants (snd (serve warm_shard (reads ''TP53:p.R248Q'' [2000, 3000])))) ''TP53:p.R248Q''
     = Some (TP53_stored\<lparr>access_count := 2, updated_at := 3000\<rparr>)
   \<and> map_of (persisted (storage (snd (serve warm_shard (reads ''TP53:p.R248Q'' [2000, 3000])))))
        ''TP53:p.R248Q''
     = Some (TP53_stored\<lparr>access_count := 2, updated_at := 3000\<rparr>)
   \<and> map_of (variants warm_shard) ''BRAF:c.1799T>A'' = None
   \<and> getVariant warm_shard 2000 ''BRAF:c.1799T>A''
     = (Inr (Response 404 (ErrorJson ''Variant not found'')), warm_shard)
   \<and> map_of (variants (snd (fetch (warm_shard\<lparr>storage := (storage warm_shard)\<lparr>down := True\<rparr>\<rparr>)
          2000 (GET_variant ''TP53:p.R248Q'')))) ''TP53:p.R248Q''
     = Some (TP53_stored\<lparr>access_count := 1, updated_at := 2000\<rparr>)
   \<and> access_count TP53_stored
     \<le> access_count (TP53_stored\<lparr>access_count := 1, updated_at := 2000\<rparr>)"
proof -
  have after: "map_of (variants (snd (fetch (warm_shard\<lparr>storage := (storage warm_shard)\<lparr>down := True\<rparr>\<rparr>)
          2000 (GET_variant ''TP53:p.R248Q'')))) ''TP53:p.R248Q''
     = Some (TP53_stored\<lparr>access_count := 1, updated_at := 2000\<rparr>)"
    by (simp add: shard_eval warm_shard_def TP53_stored_def)
  from access_count_counts_reads [OF warm_present, where dn = True and now = 2000
      and r = "GET_variant ''TP53:p.R248Q''"
      and ?e1.0 = "TP53_stored\<lparr>access_count := 1, updated_at := 2000\<rparr>"] after
  have step: "access_count TP53_stored
     \<le> access_count (TP53_stored\<lparr>access_count := 1, updated_at := 2000\<rparr>)"
    by blast
  let ?h = "''TP53:p.R248Q''"
  let ?evs = "[(2000, True, GET_variant ?h), (3000, False, POST_variant TP53),
               (4000, False, DELETE_variant ''BRAF:c.1799T>A''), (5000, False, GET_variant ?h)]"
  note th = access_count_counts_reads [OF warm_present, where ts = "[2000, 3000]" and evs = ?evs
      and other = warm_shard and k = "''BRAF:c.1799T>A''" and now' = 2000]
  have nodel: "DELETE_variant ?h \<notin> set (map (snd \<circ> snd) ?evs)"
    by simp
  have absent: "map_of (variants warm_shard) ''BRAF:c.1799T>A'' = None"
    by (simp add: warm_shard_def)
  have count0: "access_count TP53_stored = 0"
    by (simp add: TP53_stored_def TP53_def)
  from th nodel obtain e' where e': "map_of (variants (snd (serve warm_shard ?evs))) ?h = Some e'"
      "access_count e' = access_count TP53_stored + reads_of ?h ?evs"
    by blast
  have "reads_of ?h ?evs = 2"
    by simp
  with e'(2) have "access_count e' = 2"
    by (simp add: count0)
  with e'(1) have seq: "\<exists>e'. map_of (variants (snd (serve warm_shard ?evs))) ?h = Some e'
      \<and> access_count e' = 2"
    by blast
  from th have outs: "fst (serve warm_shard (reads ?h [2000, 3000]))
      = map (read_reply TP53_stored) (enumerate 0 [2000, 3000])"
    by blast
  from th have final: "map_of (variants (snd (serve warm_shard (reads ?h [2000, 3000])))) ?h
      = Some (TP53_stored\<lparr>access_count := access_count TP53_stored + length [2000, 3000 :: nat],
                 updated_at := last (updated_at TP53_stored # [2000, 3000])\<rparr>)"
    by blast
  have ne: "[2000, 3000 :: nat] \<noteq> []"
    by simp
  from th ne have kept: "map_of (persisted (storage (snd (serve warm_shard (reads ?h [2000, 3000]))))) ?h
      = Some (TP53_stored\<lparr>access_count := access_count TP53_stored + length [2000, 3000 :: nat],
                 updated_at := last (updated_at TP53_stored # [2000, 3000])\<rparr>)"
    by blast
  from th absent have nf: "getVariant warm_shard 2000 ''BRAF:c.1799T>A''
      = (Inr (Response 404 (ErrorJson ''Variant not found'')), warm_shard)"
    by blast
  have a: "fst (serve warm_shard (reads ?h [2000, 3000]))
     = [Inr (Response 200 (VariantJson (TP53_stored\<lparr>access_count := 1, updated_at := 2000\<rparr>))),
        Inr (Response 200 (VariantJson (TP53_stored\<lparr>access_count := 2, updated_at := 3000\<rparr>)))]"
    unfolding outs by (simp add: read_reply_def count0)
  have b: "map_of (variants (snd (serve warm_shard (reads ?h [2000, 3000])))) ?h
     = Some (TP53_stored\<lparr>access_count := 2, updated_at := 3000\<rparr>)"
    unfolding final by (simp add: count0)
  have c: "map_of (persisted (storage (snd (serve warm_shard (reads ?h [2000, 3000]))))) ?h
     = Some (TP53_stored\<lparr>access_count := 2, updated_at := 3000\<rparr>)"
    unfolding kept by (simp add: count0)
  show ?thesis
    using warm_present seq a b c absent nf after step by blast
qed

text \<open>
  C3 as stated fails over a sequence with failing storage calls: a stored variant is read
  once (persisted with count 1) and once more while the storage is failing (count 2 in the
  index, as the statistics show), then a delete fails in the storage, and the next request
  finds the index empty and lists the storage again: the statistics show the same variant
  with count 1.
\<close>

theorem failed_delete_lowers_access_count:
  "fst (serve fresh_shard
       [(1000, False, POST_variant TP53),
        (2000, False, GET_variant ''TP53:p.R248Q''),
        (3000, True, GET_variant ''TP53:p.R248Q''),
        (3500, False, GET_stats),
        (4000, True, DELETE_variant ''TP53:p.R248Q''),
        (5000, False, GET_stats)])
     = [Inr (Response 200 (StoredJson TP53_stored)),
        Inr (Response 200 (VariantJson (TP53_stored\<lparr>access_count := 1, updated_at := 2000\<rparr>))),
        Inl StorageError,
        Inr (Response 200 (StatsJson 1
          [\<lparr>s_hgvs = ''TP53:p.R248Q'', s_gene = ''TP53'', s_access_count = 2,
            s_created_at = 1000, s_updated_at = 3000\<rparr>])),
        Inl StorageError,
        Inr (Response 200 (StatsJson 1
          [\<lparr>s_hgvs = ''TP53:p.R248Q'', s_gene = ''TP53'', s_access_count = 1,
            s_created_at = 1000, s_updated_at = 2000\<rparr>]))]"
  by (simp add: shard_eval TP53_stored_def)







text \<open>
  C6 fails on the code. The guard of \<open>fetch\<close> is the size of the index, not whether
  the shard was hydrated: on a fresh shard over an empty storage two statistics requests
  list the storage twice, and after a store and a delete that empties the index the next
  request lists the storage again.
\<close>

theorem hydration_runs_again_on_empty_index:
  "list_calls (storage (snd (serve fresh_shard [(1, False, GET_stats), (2, False, GET_stats)]))) = 2
   \<and> list_calls (storage (snd (serve fresh_shard
        [(1, False, POST_variant TP53), (2, False, DELETE_variant ''TP53:p.R248Q''),
         (3, False, GET_stats)]))) = 2"
  using stats_twice store_delete_stats by (rule conjI)

text \<open>
  C9. Deleting a cache key that is not in the store returns the cache unchanged; deleting
  a key that reads as absent (never set, deleted, expired or a stored null) changes no
  later read of any key; deleting twice is deleting once. \<open>deleteVariant\<close> on a key that
  is neither in the index nor persisted answers success and leaves the shard unchanged;
  a second \<open>deleteVariant\<close> gives the outcome and the shard of the first; and while the
  storage works \<open>deleteVariant\<close> never fails, whether the key is there or not.
\<close>

theorem delete_is_idempotent:
  "(kv c (getKey c key) = None \<longrightarrow> KVCache_delete c key = c)
   \<and> (KVCache_get c t key = JNull \<and> t \<le> t' \<longrightarrow>
        KVCache_get (KVCache_delete c key) t' k = KVCache_get c t' k)
   \<and> KVCache_delete (KVCache_delete c key) key = KVCache_delete c key
   \<and> (map_of (variants reg) h = None \<and> map_of (persisted (storage reg)) h = None
        \<and> \<not> down (storage reg) \<longrightarrow>
        deleteVariant reg h = (Inr (Response 200 SuccessJson), reg))
   \<and> deleteVariant (snd (deleteVariant reg h)) h = deleteVariant reg h
   \<and> (\<not> down (storage reg) \<longrightarrow> fst (deleteVariant reg h) = Inr (Response 200 SuccessJson))"
  using cache_delete_unmapped [of c key] cache_delete_absent_unseen [of c t key t' k]
    cache_delete_twice [of c key] deleteVariant_absent [of reg h] deleteVariant_twice [of reg h]
    deleteVariant_up [of reg h]
  by blast

theorem delete_is_idempotent_witness:
  "kv \<lparr>kv = Map.empty, namespace = ''variants''\<rparr>
       (getKey \<lparr>kv = Map.empty, namespace = ''variants''\<rparr> ''k'') = None
   \<and> KVCache_delete \<lparr>kv = Map.empty, namespace = ''variants''\<rparr> ''k''
       = \<lparr>kv = Map.empty, namespace = ''variants''\<rparr>
   \<and> KVCache_get (KVCache_set \<lparr>kv = Map.empty, namespace = ''variants''\<rparr> 0 ''k'' (JNum 1)
        \<lparr>ttl = Some 60, metadata = None\<rparr>) 60 ''k'' = JNull
   \<and> KVCache_get (KVCache_delete
        (KVCache_set \<lparr>kv = Map.empty, namespace = ''variants''\<rparr> 0 ''k'' (JNum 1)
           \<lparr>ttl = Some 60, metadata = None\<rparr>) ''k'') 70 ''k''
       = KVCache_get (KVCache_set \<lparr>kv = Map.empty, namespace = ''variants''\<rparr> 0 ''k'' (JNum 1)
           \<lparr>ttl = Some 60, metadata = None\<rparr>) 70 ''k''
   \<and> map_of (variants warm_shard) ''BRAF:c.1799T>A'' = None
   \<and> map_of (persisted (storage warm_shard)) ''BRAF:c.1799T>A'' = None
   \<and> \<not> down (storage warm_shard)
   \<and> deleteVariant warm_shard ''BRAF:c.1799T>A'' = (Inr (Response 200 SuccessJson), warm_shard)
   \<and> fst (deleteVariant warm_shard ''TP53:p.R248Q'') = Inr (Response 200 SuccessJson)"
proof -
  let ?c = "\<lparr>kv = Map.empty, namespace = ''variants''\<rparr>"
  let ?s = "KVCache_set ?c 0 ''k'' (JNum 1) \<lparr>ttl = Some 60, metadata = None\<rparr>"
  have unmapped: "kv ?c (getKey ?c ''k'') = None"
    by simp
  have gone: "KVCache_get ?s 60 ''k'' = JNull"
    by (simp add: get_after_set)
  have le: "(60::nat) \<le> 70"
    by simp
  have a: "map_of (variants warm_shard) ''BRAF:c.1799T>A'' = None"
    by (simp add: warm_shard_def)
  have b: "map_of (persisted (storage warm_shard)) ''BRAF:c.1799T>A'' = None"
    by (simp add: warm_shard_def)
  from delete_is_idempotent [where c = ?c and key = "''k''"] unmapped
  have d1: "KVCache_delete ?c ''k'' = ?c"
    by blast
  from delete_is_idempotent [where c = ?s and key = "''k''" and t = 60 and t' = 70 and k = "''k''"]
    gone le
  have d0: "KVCache_get (KVCache_delete ?s ''k'') 70 ''k'' = KVCache_get ?s 70 ''k''"
    by blast
  from delete_is_idempotent [where reg = warm_shard and h = "''BRAF:c.1799T>A''"] a b warm_up
  have d2: "deleteVariant warm_shard ''BRAF:c.1799T>A'' = (Inr (Response 200 SuccessJson), warm_shard)"
    by blast
  from delete_is_idempotent [where reg = warm_shard and h = "''TP53:p.R248Q''"] warm_up
  have d3: "fst (deleteVariant warm_shard ''TP53:p.R248Q'') = Inr (Response 200 SuccessJson)"
    by blast
  show ?thesis
    using unmapped gone d0 a b warm_up d1 d2 d3 by blast
qed

section \<open>Facts about the variant batch\<close>













text \<open>
  Two sub-queries for one key both miss, since both look up before either writes, and
  the upstream source is called twice.
\<close>

lemma duplicate_key_calls_twice:
  "interpret_each \<lparr>kv = Map.empty, namespace = ''variants''\<rparr> 10 12 upstream
       [''BRAF:c.1799T>A'', ''BRAF:c.1799T>A''] \<lparr>kv = Map.empty, namespace = ''variants''\<rparr> 0
     = ([Inr (JStr ''pathogenic''), Inr (JStr ''pathogenic'')],
        KVCache_set \<lparr>kv = Map.empty, namespace = ''variants''\<rparr> 12 ''variant:BRAF:c.1799T>A''
          (JStr ''pathogenic'') variant_options,
        2)"
  apply (simp add: upstream_def KVCache_getOrSet_def Let_def KVCache_get_def kv_get_json_def getKey_def)
  apply (simp add: KVCache_set_def Let_def kv_put_def getKey_def)
  done

section \<open>Claims about the variant batch\<close>




end
